theory Spec2Isabelle
  imports Main "HOL-Library.Sublist"
begin

section \<open>The event channel client (services/socket.ts)\<close>

text \<open>
  \<open>SocketService\<close> is a class with private fields, mutated by its methods and by the
  listeners it installs on the socket.io socket. The model passes the state explicitly.
  Beside the fields of the class the state carries what the methods do to the outside:
  the timers handed to \<open>setTimeout\<close>, the lines written to the console, the requests
  emitted on the socket, and the application state the registered handlers act on.

  Numbers are JavaScript numbers in the source; the three counters are integers here
  (\<open>reconnectAttempts\<close> only ever holds 0 or a successor).
\<close>

datatype event_name =
  E_log | E_services | E_connections | E_connection | E_stats
  | E_connect | E_disconnect | E_connect_error

record GetLogsOptions =
  o_levels :: "string list option"
  o_service :: "string option"
  o_limit :: "int option"

text \<open>The socket.io object: the address it was opened on and its \<open>connected\<close> property.\<close>

record Socket =
  target :: string
  connected :: bool

datatype console_msg =
  Log_connected
  | Log_disconnected string
  | Err_connection string
  | Log_attempting int int
  | Err_max_attempts
  | Err_in_handler event_name string
  | Warn_not_connected string
  | Err_creating_socket string

text \<open>
  A handler is a function object; \<open>off\<close> compares handlers with \<open>!==\<close>, by identity.
  A handler is therefore named by a number, and what calling it does is given by a
  function \<open>run\<close>: from the handler, the arguments and the application state to the
  value it threw (if it threw) and the application state it left. The handlers the pages
  register set page state and raise notifications; none calls back into the service,
  and the model gives a handler no access to the service's fields.
\<close>

type_synonym hid = nat

datatype 'p args = NoArgs | ErrorArg string | Payload 'p

type_synonym ('p, 'w) run = "hid \<Rightarrow> 'p args \<Rightarrow> 'w \<Rightarrow> string option \<times> 'w"

record 'w SocketService =
  socket :: "Socket option"
  handlers :: "event_name \<rightharpoonup> hid list"
  reconnectAttempts :: int
  maxReconnectAttempts :: int
  reconnectionDelay :: int
  url :: string
  autoReconnect :: bool
  timers :: "int list"
  console :: "console_msg list"
  emitted :: "(string \<times> GetLogsOptions option) list"
  world :: 'w

definition namespace :: string where
  "namespace = ''/grpc-dashboard''"

text \<open>The field initialisers of the class; nothing scheduled, written or emitted yet.\<close>

definition new_SocketService :: "'w \<Rightarrow> 'w SocketService" where
  "new_SocketService w =
     \<lparr> socket = None, handlers = Map.empty, reconnectAttempts = 0,
       maxReconnectAttempts = 5, reconnectionDelay = 1000, url = [],
       autoReconnect = True, timers = [], console = [], emitted = [], world = w \<rparr>"

subsection \<open>disconnect, connect, attemptReconnect\<close>

text \<open>
  \<open>this.socket.disconnect()\<close> is the library's teardown. On a connected socket socket.io
  raises the \<open>disconnect\<close> event with reason \<open>io client disconnect\<close> before it returns,
  so the service's own listener writes its console line and dispatches the \<open>disconnect\<close>
  handlers inside \<open>disconnect()\<close>; with that reason, and the flag already cleared, it
  considers no retry. The model leaves out that console line and dispatch: the flag, the
  socket, the counter and the timers are as the code leaves them.
\<close>

definition disconnect :: "'w SocketService \<Rightarrow> 'w SocketService" where
  "disconnect s =
     (case socket s of
        None \<Rightarrow> s
      | Some _ \<Rightarrow> s\<lparr> autoReconnect := False, socket := None, reconnectAttempts := 0 \<rparr>)"

text \<open>
  \<open>io(...)\<close> sits in a \<open>try\<close>: either it returns a fresh socket, not yet connected, or
  it throws and the \<open>catch\<close> logs the error and leaves \<open>this.socket\<close> as
  \<open>disconnect()\<close> left it. The value \<open>connect\<close> returns is the \<open>socket\<close> field of the
  state it leaves.
\<close>

datatype io_outcome = IoOk | IoThrows string

definition connect :: "io_outcome \<Rightarrow> string \<Rightarrow> 'w SocketService \<Rightarrow> 'w SocketService" where
  "connect io u s =
     (let s1 = s\<lparr> url := u \<rparr>;
          s2 = (if socket s1 \<noteq> None then disconnect s1 else s1)
      in case io of
           IoOk \<Rightarrow> s2\<lparr> socket := Some \<lparr> target = u @ namespace, connected = False \<rparr> \<rparr>
         | IoThrows err \<Rightarrow> s2\<lparr> console := console s2 @ [Err_creating_socket err] \<rparr>)"

definition attemptReconnect :: "'w SocketService \<Rightarrow> 'w SocketService" where
  "attemptReconnect s =
     (if reconnectAttempts s < maxReconnectAttempts s then
        (let n = reconnectAttempts s + 1
         in s\<lparr> reconnectAttempts := n,
               console := console s @ [Log_attempting n (maxReconnectAttempts s)],
               timers := timers s @ [reconnectionDelay s * n] \<rparr>)
      else s\<lparr> console := console s @ [Err_max_attempts] \<rparr>)"

subsection \<open>on, off, triggerHandlers\<close>

definition on :: "event_name \<Rightarrow> hid \<Rightarrow> 'w SocketService \<Rightarrow> 'w SocketService" where
  "on event handler s =
     (let hs = (case handlers s event of None \<Rightarrow> [] | Some l \<Rightarrow> l)
      in s\<lparr> handlers := (handlers s)(event \<mapsto> hs @ [handler]) \<rparr>)"

definition off :: "event_name \<Rightarrow> hid \<Rightarrow> 'w SocketService \<Rightarrow> 'w SocketService" where
  "off event handler s =
     (case handlers s event of
        None \<Rightarrow> s
      | Some l \<Rightarrow> s\<lparr> handlers := (handlers s)(event \<mapsto> filter (\<lambda>h. h \<noteq> handler) l) \<rparr>)"

text \<open>The function \<open>on\<close> returns: a call of \<open>off\<close> with the same event and handler.\<close>

definition unsubscribe :: "event_name \<Rightarrow> hid \<Rightarrow> 'w SocketService \<Rightarrow> 'w SocketService" where
  "unsubscribe event handler = off event handler"

text \<open>
  \<open>Array.prototype.forEach\<close>: the callback runs on each element in index order; what
  the callback throws leaves \<open>forEach\<close> at once (\<open>Inl\<close>), skipping the elements after it.
\<close>

fun forEach :: "('a \<Rightarrow> 's \<Rightarrow> string + 's) \<Rightarrow> 'a list \<Rightarrow> 's \<Rightarrow> string + 's" where
  "forEach f [] s = Inr s"
| "forEach f (x # xs) s = (case f x s of Inl e \<Rightarrow> Inl e | Inr s' \<Rightarrow> forEach f xs s')"

text \<open>The callback of \<open>triggerHandlers\<close>: the handler call inside \<open>try\<close>/\<open>catch\<close>.\<close>

definition call_handler ::
  "('p, 'w) run \<Rightarrow> event_name \<Rightarrow> 'p args \<Rightarrow> hid \<Rightarrow> 'w SocketService \<Rightarrow> string + 'w SocketService" where
  "call_handler run event a h s =
     (case run h a (world s) of
        (None, w') \<Rightarrow> Inr (s\<lparr> world := w' \<rparr>)
      | (Some err, w') \<Rightarrow>
          Inr (s\<lparr> world := w', console := console s @ [Err_in_handler event err] \<rparr>))"

definition triggerHandlers ::
  "('p, 'w) run \<Rightarrow> event_name \<Rightarrow> 'p args \<Rightarrow> 'w SocketService \<Rightarrow> string + 'w SocketService" where
  "triggerHandlers run event a s =
     (case handlers s event of
        None \<Rightarrow> Inr s
      | Some l \<Rightarrow> forEach (call_handler run event a) l s)"

subsection \<open>Outbound requests\<close>

definition socket_connected :: "'w SocketService \<Rightarrow> bool" where
  "socket_connected s = (case socket s of None \<Rightarrow> False | Some k \<Rightarrow> connected k)"

definition isConnected :: "'w SocketService \<Rightarrow> bool" where
  "isConnected s = socket_connected s"

definition getServices :: "'w SocketService \<Rightarrow> 'w SocketService" where
  "getServices s =
     (if socket_connected s then s\<lparr> emitted := emitted s @ [(''getServices'', None)] \<rparr>
      else s\<lparr> console := console s @ [Warn_not_connected ''Cannot get services: Socket not connected''] \<rparr>)"

definition getConnections :: "'w SocketService \<Rightarrow> 'w SocketService" where
  "getConnections s =
     (if socket_connected s then s\<lparr> emitted := emitted s @ [(''getConnections'', None)] \<rparr>
      else s\<lparr> console := console s @ [Warn_not_connected ''Cannot get connections: Socket not connected''] \<rparr>)"

definition getLogs :: "GetLogsOptions option \<Rightarrow> 'w SocketService \<Rightarrow> 'w SocketService" where
  "getLogs options s =
     (if socket_connected s then s\<lparr> emitted := emitted s @ [(''getLogs'', options)] \<rparr>
      else s\<lparr> console := console s @ [Warn_not_connected ''Cannot get logs: Socket not connected''] \<rparr>)"

definition getStats :: "'w SocketService \<Rightarrow> 'w SocketService" where
  "getStats s =
     (if socket_connected s then s\<lparr> emitted := emitted s @ [(''getStats'', None)] \<rparr>
      else s\<lparr> console := console s @ [Warn_not_connected ''Cannot get stats: Socket not connected''] \<rparr>)"

subsection \<open>Configuration\<close>

definition setAutoReconnect :: "bool \<Rightarrow> 'w SocketService \<Rightarrow> 'w SocketService" where
  "setAutoReconnect v s = s\<lparr> autoReconnect := v \<rparr>"

definition configureReconnection ::
  "int option \<Rightarrow> int option \<Rightarrow> 'w SocketService \<Rightarrow> 'w SocketService" where
  "configureReconnection maxAttempts delay s =
     (let s1 = (case maxAttempts of None \<Rightarrow> s | Some m \<Rightarrow> s\<lparr> maxReconnectAttempts := m \<rparr>)
      in case delay of None \<Rightarrow> s1 | Some d \<Rightarrow> s1\<lparr> reconnectionDelay := d \<rparr>)"

subsection \<open>The listeners installed by connect\<close>

text \<open>
  Each listener is the body of the arrow function \<open>connect\<close> passes to \<open>socket.on\<close>.
  The library has set the socket's \<open>connected\<close> property before it calls the
  \<open>connect\<close> listener and cleared it before it calls the \<open>disconnect\<close> listener.
\<close>

definition set_connected :: "bool \<Rightarrow> 'w SocketService \<Rightarrow> 'w SocketService" where
  "set_connected b s = s\<lparr> socket := map_option (\<lambda>k. k\<lparr> connected := b \<rparr>) (socket s) \<rparr>"

definition on_connect :: "('p, 'w) run \<Rightarrow> 'w SocketService \<Rightarrow> string + 'w SocketService" where
  "on_connect run s =
     triggerHandlers run E_connect NoArgs
       (s\<lparr> console := console s @ [Log_connected], reconnectAttempts := 0 \<rparr>)"

definition on_disconnect ::
  "('p, 'w) run \<Rightarrow> string \<Rightarrow> 'w SocketService \<Rightarrow> string + 'w SocketService" where
  "on_disconnect run reason s =
     (case triggerHandlers run E_disconnect NoArgs
             (s\<lparr> console := console s @ [Log_disconnected reason] \<rparr>) of
        Inl e \<Rightarrow> Inl e
      | Inr s' \<Rightarrow>
          Inr (if autoReconnect s' \<and> reason \<noteq> ''io client disconnect''
               then attemptReconnect s' else s'))"

definition on_connect_error ::
  "('p, 'w) run \<Rightarrow> string \<Rightarrow> 'w SocketService \<Rightarrow> string + 'w SocketService" where
  "on_connect_error run err s =
     (case triggerHandlers run E_connect_error (ErrorArg err)
             (s\<lparr> console := console s @ [Err_connection err] \<rparr>) of
        Inl e \<Rightarrow> Inl e
      | Inr s' \<Rightarrow> Inr (if autoReconnect s' then attemptReconnect s' else s'))"

definition on_push ::
  "('p, 'w) run \<Rightarrow> event_name \<Rightarrow> 'p \<Rightarrow> 'w SocketService \<Rightarrow> string + 'w SocketService" where
  "on_push run event p s = triggerHandlers run event (Payload p) s"

subsection \<open>The client as a machine\<close>

text \<open>
  What can happen to the client: a call of one of its public methods, an event of the
  socket it holds, or a pending timer coming due. The service lets go of a socket only
  in \<open>disconnect()\<close>, which calls the socket's own \<open>disconnect()\<close> first, and socket.io
  raises no event on a socket after that; so events are those of the socket held, and
  with no socket held there is none. A timer's callback is \<open>connect(this.url)\<close>, with
  the url read when the timer fires.
\<close>

datatype 'p action =
  Call_connect string io_outcome
  | Call_disconnect
  | Call_on event_name hid
  | Call_off event_name hid
  | Call_getServices
  | Call_getConnections
  | Call_getLogs "GetLogsOptions option"
  | Call_getStats
  | Call_setAutoReconnect bool
  | Call_configureReconnection "int option" "int option"
  | Sock_connect
  | Sock_disconnect string
  | Sock_connect_error string
  | Sock_push event_name 'p
  | Timer_fire nat io_outcome

definition push_events :: "event_name list" where
  "push_events = [E_log, E_services, E_connections, E_connection, E_stats]"

fun step :: "('p, 'w) run \<Rightarrow> 'p action \<Rightarrow> 'w SocketService \<Rightarrow> string + 'w SocketService" where
  "step run (Call_connect u io) s = Inr (connect io u s)"
| "step run Call_disconnect s = Inr (disconnect s)"
| "step run (Call_on e h) s = Inr (on e h s)"
| "step run (Call_off e h) s = Inr (off e h s)"
| "step run Call_getServices s = Inr (getServices s)"
| "step run Call_getConnections s = Inr (getConnections s)"
| "step run (Call_getLogs opts) s = Inr (getLogs opts s)"
| "step run Call_getStats s = Inr (getStats s)"
| "step run (Call_setAutoReconnect v) s = Inr (setAutoReconnect v s)"
| "step run (Call_configureReconnection m d) s = Inr (configureReconnection m d s)"
| "step run Sock_connect s =
     (if socket s = None then Inr s else on_connect run (set_connected True s))"
| "step run (Sock_disconnect reason) s =
     (if socket s = None then Inr s else on_disconnect run reason (set_connected False s))"
| "step run (Sock_connect_error err) s =
     (if socket s = None then Inr s else on_connect_error run err s)"
| "step run (Sock_push e p) s =
     (if socket s = None \<or> e \<notin> set push_events then Inr s else on_push run e p s)"
| "step run (Timer_fire i io) s =
     (if i < length (timers s)
      then Inr (connect io (url s) (s\<lparr> timers := take i (timers s) @ drop (Suc i) (timers s) \<rparr>))
      else Inr s)"

fun exec :: "('p, 'w) run \<Rightarrow> 'p action list \<Rightarrow> 'w SocketService \<Rightarrow> string + 'w SocketService" where
  "exec run [] s = Inr s"
| "exec run (a # as) s = (case step run a s of Inl e \<Rightarrow> Inl e | Inr s' \<Rightarrow> exec run as s')"

subsection \<open>What a dispatch leaves behind\<close>

text \<open>
  Two observers used to state what \<open>triggerHandlers\<close> does: the application state after
  the handlers of a list have run one after the other, each on the state the one before
  left, and the console lines for those that threw.
\<close>

fun world_after :: "('p, 'w) run \<Rightarrow> 'p args \<Rightarrow> hid list \<Rightarrow> 'w \<Rightarrow> 'w" where
  "world_after run a [] w = w"
| "world_after run a (h # hs) w = world_after run a hs (snd (run h a w))"

fun errors_logged :: "('p, 'w) run \<Rightarrow> event_name \<Rightarrow> 'p args \<Rightarrow> hid list \<Rightarrow> 'w \<Rightarrow> console_msg list" where
  "errors_logged run e a [] w = []"
| "errors_logged run e a (h # hs) w =
     (case fst (run h a w) of
        None \<Rightarrow> errors_logged run e a hs (snd (run h a w))
      | Some err \<Rightarrow> Err_in_handler e err # errors_logged run e a hs (snd (run h a w)))"

definition registered :: "'w SocketService \<Rightarrow> event_name \<Rightarrow> hid list" where
  "registered s e = (case handlers s e of None \<Rightarrow> [] | Some l \<Rightarrow> l)"

subsection \<open>Failure events; handlers that do nothing\<close>

text \<open>
  The events after which the listeners consider a reconnection: a close whose reason is
  not the client's own \<open>disconnect()\<close>, and a connection error.
\<close>

fun is_failure :: "'p action \<Rightarrow> bool" where
  "is_failure (Sock_disconnect reason) = (reason \<noteq> ''io client disconnect'')"
| "is_failure (Sock_connect_error err) = True"
| "is_failure _ = False"

definition quiet :: "(unit, unit) run" where
  "quiet h a w = (None, w)"

section \<open>The pages' merge functions (pages/Connections.tsx, pages/Logs.tsx, pages/Dashboard.tsx)\<close>

subsection \<open>JavaScript library functions\<close>

text \<open>
  \<open>Array.prototype.findIndex\<close> returns the first index whose element satisfies the
  predicate, or -1. \<open>Array.prototype.slice(start, end)\<close> counts a negative index from the
  end and clamps both to the array. \<open>String.prototype.includes\<close> is the substring test.
  \<open>toLowerCase\<close> is modelled on ASCII letters only; the source's also lowers capitals
  outside ASCII, so the text tests below agree with the code on ASCII text.
\<close>

fun findIndex :: "('a \<Rightarrow> bool) \<Rightarrow> 'a list \<Rightarrow> int" where
  "findIndex p [] = - 1"
| "findIndex p (x # xs) =
     (if p x then 0 else (let i = findIndex p xs in if i < 0 then - 1 else i + 1))"

definition rel_index :: "int \<Rightarrow> nat \<Rightarrow> nat" where
  "rel_index i n = (if i < 0 then nat (max (int n + i) 0) else min (nat i) n)"

definition slice :: "'a list \<Rightarrow> int \<Rightarrow> int \<Rightarrow> 'a list" where
  "slice xs start end =
     (let k = rel_index start (length xs); f = rel_index end (length xs)
      in take (f - k) (drop k xs))"

fun includes_str :: "string \<Rightarrow> string \<Rightarrow> bool" where
  "includes_str [] t = (t = [])"
| "includes_str (c # cs) t = (prefix t (c # cs) \<or> includes_str cs t)"

definition lower_char :: "char \<Rightarrow> char" where
  "lower_char c =
     (if (65::nat) \<le> of_char c \<and> of_char c \<le> (90::nat)
      then char_of (of_char c + (32::nat)) else c)"

definition toLowerCase :: "string \<Rightarrow> string" where
  "toLowerCase s = map lower_char s"

text \<open>An optional string used as a condition: \<open>undefined\<close> and the empty string are falsy.\<close>

definition truthy :: "string option \<Rightarrow> bool" where
  "truthy so = (case so of None \<Rightarrow> False | Some s \<Rightarrow> s \<noteq> [])"

subsection \<open>Connections\<close>

datatype conn_status = St_connected | St_disconnected | St_error

fun status_name :: "conn_status \<Rightarrow> string" where
  "status_name St_connected = ''connected''"
| "status_name St_disconnected = ''disconnected''"
| "status_name St_error = ''error''"

record GrpcConnection =
  c_id :: string
  c_clientId :: string
  c_service :: string
  c_url :: string
  c_status :: conn_status
  c_established :: string
  c_lastActivity :: string
  c_metadata :: "(string \<times> string) list option"

text \<open>The updater \<open>handleConnectionUpdate\<close> passes to \<open>setConnections\<close>.\<close>

definition handleConnectionUpdate :: "GrpcConnection \<Rightarrow> GrpcConnection list \<Rightarrow> GrpcConnection list" where
  "handleConnectionUpdate connection prev =
     (let index = findIndex (\<lambda>c. c_id c = c_id connection) prev
      in if index \<ge> 0 then prev[nat index := connection] else prev @ [connection])"

definition filteredConnections :: "string \<Rightarrow> GrpcConnection list \<Rightarrow> GrpcConnection list" where
  "filteredConnections searchText connections =
     (if searchText = [] then connections
      else (let searchLower = toLowerCase searchText
            in filter (\<lambda>conn.
                 includes_str (toLowerCase (c_clientId conn)) searchLower \<or>
                 includes_str (toLowerCase (c_service conn)) searchLower \<or>
                 includes_str (toLowerCase (c_url conn)) searchLower \<or>
                 includes_str (toLowerCase (status_name (c_status conn))) searchLower)
               connections))"

subsection \<open>Logs\<close>

datatype LogLevel = L_error | L_warn | L_info | L_debug | L_verbose

fun level_name :: "LogLevel \<Rightarrow> string" where
  "level_name L_error = ''error''"
| "level_name L_warn = ''warn''"
| "level_name L_info = ''info''"
| "level_name L_debug = ''debug''"
| "level_name L_verbose = ''verbose''"

record LogEntry =
  l_id :: string
  l_timestamp :: string
  l_level :: LogLevel
  l_message :: string
  l_context :: string
  l_service :: "string option"
  l_method :: "string option"
  l_traceId :: "string option"

record LogFilter =
  f_levels :: "string list"
  f_service :: "string option"
  f_searchText :: string
  f_limit :: int

text \<open>The initial value of the \<open>filters\<close> state of the Logs page (and of \<open>resetFilters\<close>).\<close>

definition defaultFilters :: LogFilter where
  "defaultFilters =
     \<lparr> f_levels = [''error'', ''warn'', ''info'', ''debug'', ''verbose''],
       f_service = None, f_searchText = [], f_limit = 50 \<rparr>"

text \<open>\<open>o && o.toLowerCase().includes(t)\<close> on an optional field.\<close>

definition opt_includes :: "string option \<Rightarrow> string \<Rightarrow> bool" where
  "opt_includes so t =
     (case so of
        None \<Rightarrow> False
      | Some s \<Rightarrow> s \<noteq> [] \<and> includes_str (toLowerCase s) (toLowerCase t))"

text \<open>The condition of the \<open>if\<close> in \<open>handleLogUpdate\<close> of the Logs page.\<close>

definition matches_filters :: "LogFilter \<Rightarrow> LogEntry \<Rightarrow> bool" where
  "matches_filters filters log =
     (level_name (l_level log) \<in> set (f_levels filters) \<and>
      (\<not> truthy (f_service filters) \<or>
         (truthy (l_service log) \<and> l_service log = f_service filters)) \<and>
      (f_searchText filters = [] \<or>
         includes_str (toLowerCase (l_message log)) (toLowerCase (f_searchText filters)) \<or>
         includes_str (toLowerCase (l_context log)) (toLowerCase (f_searchText filters)) \<or>
         opt_includes (l_service log) (f_searchText filters) \<or>
         opt_includes (l_method log) (f_searchText filters)))"

text \<open>The Logs page: the updater passed to \<open>setLogs\<close>, guarded by the filters.\<close>

definition Logs_handleLogUpdate :: "LogFilter \<Rightarrow> LogEntry \<Rightarrow> LogEntry list \<Rightarrow> LogEntry list" where
  "Logs_handleLogUpdate filters log prev =
     (if matches_filters filters log then log # slice prev 0 (f_limit filters - 1) else prev)"

text \<open>The Dashboard page: \<open>[log, ...prev].slice(0, 5)\<close>.\<close>

definition Dashboard_handleLogUpdate :: "LogEntry \<Rightarrow> LogEntry list \<Rightarrow> LogEntry list" where
  "Dashboard_handleLogUpdate log prev = slice (log # prev) 0 5"

text \<open>A series of \<open>log\<close> pushes under one filter object, handled in the order of arrival.\<close>

fun Logs_pushes :: "LogFilter \<Rightarrow> LogEntry list \<Rightarrow> LogEntry list \<Rightarrow> LogEntry list" where
  "Logs_pushes f prev [] = prev"
| "Logs_pushes f prev (log # rest) = Logs_pushes f (Logs_handleLogUpdate f log prev) rest"

text \<open>
  The state of the Logs page the filters touch, and what changes it. \<open>setFilters\<close> (from
  the form, the search box, reset or a saved filter) stores a new filter object; the
  effect that has \<open>filters\<close> among its dependencies then runs again and calls
  \<open>fetchLogs()\<close> with the new levels, service and limit (\<open>requested\<close> records the
  queries issued). The answer to a fetch is stored whole by \<open>setLogs(data)\<close>. A \<open>log\<close>
  push goes through \<open>handleLogUpdate\<close>.
\<close>

record LogsPage =
  logs :: "LogEntry list"
  filters :: LogFilter
  requested :: "GetLogsOptions list"

definition query_of :: "LogFilter \<Rightarrow> GetLogsOptions" where
  "query_of f = \<lparr> o_levels = Some (f_levels f), o_service = f_service f, o_limit = Some (f_limit f) \<rparr>"

definition filteredLogs :: "LogsPage \<Rightarrow> LogEntry list" where
  "filteredLogs st =
     (if f_searchText (filters st) = [] then logs st
      else filter (\<lambda>log.
             includes_str (toLowerCase (l_message log)) (toLowerCase (f_searchText (filters st))) \<or>
             includes_str (toLowerCase (l_context log)) (toLowerCase (f_searchText (filters st))) \<or>
             opt_includes (l_service log) (f_searchText (filters st)) \<or>
             opt_includes (l_method log) (f_searchText (filters st)) \<or>
             opt_includes (l_traceId log) (f_searchText (filters st)))
           (logs st))"

datatype logs_action = SetFilters LogFilter | LogPush LogEntry | FetchDone "LogEntry list"

fun logs_step :: "LogsPage \<Rightarrow> logs_action \<Rightarrow> LogsPage" where
  "logs_step st (SetFilters f) = st\<lparr> filters := f, requested := requested st @ [query_of f] \<rparr>"
| "logs_step st (LogPush log) = st\<lparr> logs := Logs_handleLogUpdate (filters st) log (logs st) \<rparr>"
| "logs_step st (FetchDone data) = st\<lparr> logs := data \<rparr>"

subsection \<open>Sample records\<close>

text \<open>A connection and a log entry with the given identity, for the worked instances.\<close>

definition conn :: "string \<Rightarrow> string \<Rightarrow> GrpcConnection" where
  "conn i client =
     \<lparr> c_id = i, c_clientId = client, c_service = ''Greeter'', c_url = ''localhost:50051'',
       c_status = St_connected, c_established = ''2024-01-01T00:00:00Z'',
       c_lastActivity = ''2024-01-01T00:00:01Z'', c_metadata = None \<rparr>"

definition entry :: "nat \<Rightarrow> LogLevel \<Rightarrow> LogEntry" where
  "entry n lvl =
     \<lparr> l_id = replicate n (CHR ''i''), l_timestamp = ''2024-01-01T00:00:00Z'', l_level = lvl,
       l_message = ''call served'', l_context = ''GrpcServer'', l_service = None,
       l_method = None, l_traceId = None \<rparr>"

definition entries :: "LogLevel \<Rightarrow> nat \<Rightarrow> LogEntry list" where
  "entries lvl n = map (\<lambda>i. entry i lvl) [0..<n]"

section \<open>Properties of the event channel client\<close>

subsection \<open>Dispatch\<close>

lemma forEach_call_handler:
  "forEach (call_handler run e a) hs s =
     Inr (s\<lparr> world := world_after run a hs (world s),
             console := console s @ errors_logged run e a hs (world s) \<rparr>)"
  by (induction hs arbitrary: s) (simp_all add: call_handler_def split: prod.splits option.splits)

lemma triggerHandlers_eq:
  "triggerHandlers run e a s =
     Inr (s\<lparr> world := world_after run a (registered s e) (world s),
             console := console s @ errors_logged run e a (registered s e) (world s) \<rparr>)"
  by (simp add: triggerHandlers_def registered_def forEach_call_handler split: option.splits)

lemma registered_frame [simp]:
  "registered (s\<lparr> console := c \<rparr>) e = registered s e"
  "registered (s\<lparr> reconnectAttempts := n \<rparr>) e = registered s e"
  "registered (s\<lparr> socket := k \<rparr>) e = registered s e"
  "registered (s\<lparr> world := w \<rparr>) e = registered s e"
  by (simp_all add: registered_def)

lemma registered_on:
  "registered (on e h s) e' = (if e' = e then registered s e @ [h] else registered s e')"
  by (simp add: registered_def on_def Let_def)

lemma registered_foldl_on:
  "registered (foldl (\<lambda>t h. on e h t) s hs) e = registered s e @ hs"
  by (induction hs arbitrary: s) (simp_all add: registered_on)

lemma on_frame:
  "world (on e h s) = world s" "console (on e h s) = console s"
  by (simp_all add: on_def Let_def)

lemma foldl_on_frame:
  "world (foldl (\<lambda>t h. on e h t) s hs) = world s \<and>
   console (foldl (\<lambda>t h. on e h t) s hs) = console s"
  by (induction hs arbitrary: s) (simp_all add: on_frame)

text \<open>
  C8. Register the handlers \<open>hs\<close> for an event, one \<open>on\<close> call after the other, on top of
  those already registered. A dispatch of that event does not let anything escape (the
  result is \<open>Inr\<close>), and it has run every handler once, in the order of registration,
  each on the application state left by the one before, whether or not that one threw;
  each throw is one console line, in the same order. Nothing else of the service changes.
\<close>

theorem dispatch_in_registration_order:
  "triggerHandlers run e a (foldl (\<lambda>t h. on e h t) s hs) =
     Inr ((foldl (\<lambda>t h. on e h t) s hs)
            \<lparr> world := world_after run a (registered s e @ hs) (world s),
              console := console s @ errors_logged run e a (registered s e @ hs) (world s) \<rparr>)"
  by (simp add: triggerHandlers_eq registered_foldl_on foldl_on_frame)

text \<open>
  Three handlers that append their own number to a trace; the second throws after
  doing so. All three have run, in order, and the throw is logged.
\<close>

theorem dispatch_in_registration_order_witness:
  "\<exists>s'. triggerHandlers (\<lambda>h (a::unit args) w. (if h = 2 then Some ''boom'' else None, w @ [h]))
           E_log (Payload ()) (foldl (\<lambda>t h. on E_log h t) (new_SocketService []) [1, 2, 3]) = Inr s'
        \<and> world s' = [1, 2, 3] \<and> console s' = [Err_in_handler E_log ''boom'']"
  using dispatch_in_registration_order
    [of "\<lambda>h (a::unit args) w. (if h = 2 then Some ''boom'' else None, w @ [h])"
        E_log "Payload ()" "new_SocketService []" "[1, 2, 3]"]
  by (simp add: registered_def new_SocketService_def)

text \<open>
  C10. \<open>off\<close>, and the function \<open>on\<close> returns, keep of the event's list exactly the
  handlers that are not the given one, in their order: every occurrence goes, so a
  handler registered twice is gone after one removal. The lists of the other events are
  untouched.
\<close>

theorem off_removes_every_occurrence:
  "handlers (off e h s) e = map_option (filter (\<lambda>x. x \<noteq> h)) (handlers s e) \<and>
   h \<notin> set (registered (off e h s) e) \<and>
   (e' \<noteq> e \<longrightarrow> handlers (off e h s) e' = handlers s e') \<and>
   unsubscribe e h s = off e h s \<and>
   registered (unsubscribe e h (on e h (on e h s))) e = filter (\<lambda>x. x \<noteq> h) (registered s e)"
  by (auto simp add: off_def on_def registered_def unsubscribe_def Let_def split: option.splits)

theorem off_removes_every_occurrence_witness:
  "E_stats \<noteq> E_log \<and>
   registered (unsubscribe E_log 7 (on E_log 7 (on E_log 7 (on E_stats 7 (on E_log 4 (new_SocketService ())))))) E_log = [4] \<and>
   handlers (off E_log 7 (on E_log 7 (on E_stats 7 (new_SocketService ())))) E_stats = Some [7]"
  using off_removes_every_occurrence
    [of E_log 7 "on E_stats 7 (on E_log 4 (new_SocketService ()))" E_stats]
    off_removes_every_occurrence [of E_log 7 "on E_log 7 (on E_stats 7 (new_SocketService ()))" E_stats]
  by (simp add: registered_on registered_def on_def new_SocketService_def)

subsection \<open>Outbound requests\<close>

lemma socket_connected_emitted [simp]:
  "socket_connected (s\<lparr> emitted := x \<rparr>) = socket_connected s"
  by (simp add: socket_connected_def)

text \<open>
  C9. Each of the four outbound requests, on a connected socket, emits its event once
  (the emitted sequence grows by exactly that one entry, nothing else changes); on a
  socket that is absent or not connected it writes one warning, emits nothing and
  leaves every field of the service as it was, so nothing is kept for later.
\<close>

theorem outbound_requests_fire_or_drop:
  "(socket_connected s \<longrightarrow>
      getServices s = s\<lparr> emitted := emitted s @ [(''getServices'', None)] \<rparr> \<and>
      getConnections s = s\<lparr> emitted := emitted s @ [(''getConnections'', None)] \<rparr> \<and>
      getLogs opts s = s\<lparr> emitted := emitted s @ [(''getLogs'', opts)] \<rparr> \<and>
      getStats s = s\<lparr> emitted := emitted s @ [(''getStats'', None)] \<rparr>) \<and>
   (\<not> socket_connected s \<longrightarrow>
      getServices s =
        s\<lparr> console := console s @ [Warn_not_connected ''Cannot get services: Socket not connected''] \<rparr> \<and>
      getConnections s =
        s\<lparr> console := console s @ [Warn_not_connected ''Cannot get connections: Socket not connected''] \<rparr> \<and>
      getLogs opts s =
        s\<lparr> console := console s @ [Warn_not_connected ''Cannot get logs: Socket not connected''] \<rparr> \<and>
      getStats s =
        s\<lparr> console := console s @ [Warn_not_connected ''Cannot get stats: Socket not connected''] \<rparr> \<and>
      emitted (getServices s) = emitted s \<and> emitted (getConnections s) = emitted s \<and>
      emitted (getLogs opts s) = emitted s \<and> emitted (getStats s) = emitted s)"
  by (simp add: getServices_def getConnections_def getLogs_def getStats_def)

theorem outbound_requests_fire_or_drop_witness:
  "socket_connected (set_connected True (connect IoOk ''http://h'' (new_SocketService ()))) \<and>
   emitted (getLogs None (set_connected True (connect IoOk ''http://h'' (new_SocketService ()))))
     = [(''getLogs'', None)] \<and>
   \<not> socket_connected (new_SocketService ()) \<and>
   emitted (getLogs None (new_SocketService ())) = [] \<and>
   console (getLogs None (new_SocketService ()))
     = [Warn_not_connected ''Cannot get logs: Socket not connected'']"
  using outbound_requests_fire_or_drop
      [of "set_connected True (connect IoOk ''http://h'' (new_SocketService ()))" None]
    outbound_requests_fire_or_drop [of "new_SocketService ()" None]
  by (simp add: socket_connected_def set_connected_def connect_def new_SocketService_def)

subsection \<open>The listeners, unfolded\<close>

lemma on_connect_eq:
  "on_connect run s =
     Inr (s\<lparr> reconnectAttempts := 0,
             world := world_after run NoArgs (registered s E_connect) (world s),
             console := console s @ [Log_connected] @
                        errors_logged run E_connect NoArgs (registered s E_connect) (world s) \<rparr>)"
  by (simp add: on_connect_def triggerHandlers_eq)

lemma on_disconnect_eq:
  "on_disconnect run reason s =
     (let s' = s\<lparr> world := world_after run NoArgs (registered s E_disconnect) (world s),
                  console := console s @ [Log_disconnected reason] @
                        errors_logged run E_disconnect NoArgs (registered s E_disconnect) (world s) \<rparr>
      in Inr (if autoReconnect s \<and> reason \<noteq> ''io client disconnect''
              then attemptReconnect s' else s'))"
  by (simp add: on_disconnect_def triggerHandlers_eq Let_def)

lemma on_connect_error_eq:
  "on_connect_error run err s =
     (let s' = s\<lparr> world := world_after run (ErrorArg err) (registered s E_connect_error) (world s),
                  console := console s @ [Err_connection err] @
                        errors_logged run E_connect_error (ErrorArg err)
                          (registered s E_connect_error) (world s) \<rparr>
      in Inr (if autoReconnect s then attemptReconnect s' else s'))"
  by (simp add: on_connect_error_def triggerHandlers_eq Let_def)

lemmas svc_defs = connect_def disconnect_def on_def off_def getServices_def
  getConnections_def getLogs_def getStats_def setAutoReconnect_def
  configureReconnection_def attemptReconnect_def set_connected_def new_SocketService_def
  on_connect_eq on_disconnect_eq on_connect_error_eq on_push_def triggerHandlers_eq
  registered_def socket_connected_def namespace_def

text \<open>No step lets an exception out, so every sequence of actions runs to its end.\<close>

lemma step_total: "\<exists>s'. step run a s = Inr s'"
  by (cases a) (simp_all add: on_connect_eq on_disconnect_eq on_connect_error_eq on_push_def
      triggerHandlers_eq Let_def)

lemma exec_total: "\<exists>s'. exec run acts s = Inr s'"
proof (induction acts arbitrary: s)
  case Nil
  show ?case by simp
next
  case (Cons a acts)
  obtain s1 where "step run a s = Inr s1" using step_total by blast
  with Cons show ?case by simp
qed

subsection \<open>The attempt counter\<close>

text \<open>With no socket held the counter is 0: every step keeps this.\<close>

lemma step_counter_inv:
  assumes "step run a s = Inr s'" "socket s = None \<longrightarrow> reconnectAttempts s = 0"
  shows "socket s' = None \<longrightarrow> reconnectAttempts s' = 0"
  using assms
  by (cases a)
     (auto simp add: on_connect_eq on_disconnect_eq on_connect_error_eq on_push_def
       triggerHandlers_eq Let_def connect_def disconnect_def on_def off_def getServices_def
       getConnections_def getLogs_def getStats_def setAutoReconnect_def
       configureReconnection_def attemptReconnect_def set_connected_def
       split: option.splits io_outcome.splits if_splits)

lemma exec_counter_inv:
  "exec run acts s = Inr s' \<Longrightarrow> (socket s = None \<longrightarrow> reconnectAttempts s = 0)
     \<Longrightarrow> (socket s' = None \<longrightarrow> reconnectAttempts s' = 0)"
proof (induction acts arbitrary: s)
  case Nil
  then show ?case by simp
next
  case (Cons a acts)
  obtain s1 where s1: "step run a s = Inr s1" using step_total by blast
  with Cons.prems(1) have "exec run acts s1 = Inr s'" by simp
  moreover from s1 Cons.prems(2) have "socket s1 = None \<longrightarrow> reconnectAttempts s1 = 0"
    by (rule step_counter_inv)
  ultimately show ?case by (rule Cons.IH)
qed

text \<open>
  C4. In every state the client reaches from its initial state, by any sequence of
  method calls, socket events and timers: when the socket's \<open>connect\<close> event fires, the
  counter is 0 once the listener is done; and when \<open>disconnect()\<close> is called, the
  counter is 0 once it returns.
\<close>

theorem attempt_counter_reset:
  assumes "exec run acts (new_SocketService w) = Inr s"
  shows "(\<exists>s'. step run Sock_connect s = Inr s' \<and> reconnectAttempts s' = 0) \<and>
         (\<exists>s'. step run Call_disconnect s = Inr s' \<and> reconnectAttempts s' = 0)"
proof -
  have inv: "socket s = None \<longrightarrow> reconnectAttempts s = 0"
    using assms by (rule exec_counter_inv) (simp add: new_SocketService_def)
  have "\<exists>s'. step run Sock_connect s = Inr s' \<and> reconnectAttempts s' = 0"
    using inv by (simp add: on_connect_eq)
  moreover have "\<exists>s'. step run Call_disconnect s = Inr s' \<and> reconnectAttempts s' = 0"
    using inv by (simp add: disconnect_def split: option.splits)
  ultimately show ?thesis by blast
qed

text \<open>After two failed connection attempts the counter is 2; both resets bring it to 0.\<close>

theorem attempt_counter_reset_witness:
  "\<exists>s. exec (\<lambda>h (a::unit args) (w::unit). (None, w))
          [Call_connect ''http://h'' IoOk, Sock_connect_error ''refused'',
           Sock_connect_error ''refused'']
          (new_SocketService ()) = Inr s \<and> reconnectAttempts s = 2 \<and>
       (\<exists>s'. step (\<lambda>h (a::unit args) (w::unit). (None, w)) Sock_connect s = Inr s'
            \<and> reconnectAttempts s' = 0) \<and>
       (\<exists>s'. step (\<lambda>h (a::unit args) (w::unit). (None, w)) Call_disconnect s = Inr s'
            \<and> reconnectAttempts s' = 0)"
proof -
  obtain s where s: "exec (\<lambda>h (a::unit args) (w::unit). (None, w))
          [Call_connect ''http://h'' IoOk, Sock_connect_error ''refused'',
           Sock_connect_error ''refused'']
          (new_SocketService ()) = Inr s"
    using exec_total by blast
  from s have "reconnectAttempts s = 2"
    by (auto simp add: svc_defs Let_def)
  with s attempt_counter_reset [OF s] show ?thesis by blast
qed


subsection \<open>Reconnection\<close>

lemma failure_step:
  assumes "is_failure a" "socket s \<noteq> None" "autoReconnect s"
    "reconnectAttempts s < maxReconnectAttempts s"
  shows "\<exists>s'. step run a s = Inr s' \<and>
           reconnectAttempts s' = reconnectAttempts s + 1 \<and>
           timers s' = timers s @ [reconnectionDelay s * (reconnectAttempts s + 1)] \<and>
           socket s' \<noteq> None \<and> autoReconnect s' \<and>
           maxReconnectAttempts s' = maxReconnectAttempts s \<and>
           reconnectionDelay s' = reconnectionDelay s"
  using assms
  by (cases a)
     (simp_all add: on_disconnect_eq on_connect_error_eq attemptReconnect_def set_connected_def Let_def)

lemma failures_run:
  assumes "list_all is_failure fs" "socket s \<noteq> None" "autoReconnect s"
    "reconnectAttempts s + int (length fs) \<le> maxReconnectAttempts s"
  shows "\<exists>s'. exec run fs s = Inr s' \<and>
           reconnectAttempts s' = reconnectAttempts s + int (length fs) \<and>
           timers s' = timers s @
             map (\<lambda>i. reconnectionDelay s * (reconnectAttempts s + int i)) [1..<Suc (length fs)] \<and>
           socket s' \<noteq> None \<and> autoReconnect s' \<and>
           maxReconnectAttempts s' = maxReconnectAttempts s \<and>
           reconnectionDelay s' = reconnectionDelay s"
  using assms
proof (induction fs arbitrary: s)
  case Nil
  then show ?case by simp
next
  case (Cons a fs)
  from Cons.prems have a: "is_failure a" and fs: "list_all is_failure fs"
    and lt: "reconnectAttempts s < maxReconnectAttempts s" by simp_all
  from failure_step [OF a Cons.prems(2,3) lt, of run]
  obtain s1 where s1: "step run a s = Inr s1"
    "reconnectAttempts s1 = reconnectAttempts s + 1"
    "timers s1 = timers s @ [reconnectionDelay s * (reconnectAttempts s + 1)]"
    "socket s1 \<noteq> None" "autoReconnect s1"
    "maxReconnectAttempts s1 = maxReconnectAttempts s"
    "reconnectionDelay s1 = reconnectionDelay s" by blast
  have le: "reconnectAttempts s1 + int (length fs) \<le> maxReconnectAttempts s1"
    using Cons.prems(4) s1 by simp
  from Cons.IH [OF fs s1(4,5) le]
  obtain s' where s': "exec run fs s1 = Inr s'"
    "reconnectAttempts s' = reconnectAttempts s1 + int (length fs)"
    "timers s' = timers s1 @
       map (\<lambda>i. reconnectionDelay s1 * (reconnectAttempts s1 + int i)) [1..<Suc (length fs)]"
    "socket s' \<noteq> None" "autoReconnect s'"
    "maxReconnectAttempts s' = maxReconnectAttempts s1"
    "reconnectionDelay s' = reconnectionDelay s1" by blast
  have shift: "map (\<lambda>i. reconnectionDelay s * (reconnectAttempts s + int i)) [1..<Suc (Suc (length fs))]
      = reconnectionDelay s * (reconnectAttempts s + 1) #
        map (\<lambda>i. reconnectionDelay s * (reconnectAttempts s + 1 + int i)) [1..<Suc (length fs)]"
  proof -
    have "[1..<Suc (Suc (length fs))] = 1 # map Suc [1..<Suc (length fs)]"
      by (simp add: upt_conv_Cons map_Suc_upt del: upt_Suc)
    then show ?thesis by (simp add: comp_def add.assoc del: upt_Suc)
  qed
  show ?case
    using s1 s' shift by (simp del: upt_Suc)
qed

text \<open>
  What a retry does when its timer fires: \<open>connect\<close> finds the failed socket still
  held and calls \<open>disconnect()\<close> on it, which clears the flag and the counter.
\<close>

lemma connect_auto_reconnect:
  "autoReconnect (connect io u s) = (autoReconnect s \<and> socket s = None)"
  by (auto simp add: connect_def disconnect_def Let_def split: io_outcome.splits option.splits)

lemma timer_retry_clears_flag:
  assumes "socket s \<noteq> None" "i < length (timers s)" "step run (Timer_fire i io) s = Inr s'"
  shows "\<not> autoReconnect s' \<and> reconnectAttempts s' = 0"
  using assms
  by (auto simp add: connect_def disconnect_def Let_def split: io_outcome.splits)

text \<open>
  C3. A close that is not the client's own, or a connection error, on a client that
  holds a socket, has auto-reconnect enabled and has made fewer attempts than the
  maximum: the counter goes up by exactly 1 and exactly one timer is added, with delay
  \<open>reconnectionDelay\<close> times the new attempt number. The defaults are 1000 and 5. From
  counter 0, \<open>k\<close> such events in a row, \<open>k\<close> up to the maximum, leave the counter at \<open>k\<close>
  and have added the delays \<open>reconnectionDelay * 1, ..., reconnectionDelay * k\<close>.
\<close>

theorem unexpected_close_schedules_linear_backoff:
  fixes run :: "('p, 'w) run" and s :: "'w SocketService"
  assumes "socket s \<noteq> None" "autoReconnect s"
    "reconnectAttempts s < maxReconnectAttempts s" "reason \<noteq> ''io client disconnect''"
  shows "(\<exists>s'. step run (Sock_disconnect reason) s = Inr s' \<and>
            reconnectAttempts s' = reconnectAttempts s + 1 \<and>
            timers s' = timers s @ [reconnectionDelay s * (reconnectAttempts s + 1)]) \<and>
         (\<exists>s'. step run (Sock_connect_error err) s = Inr s' \<and>
            reconnectAttempts s' = reconnectAttempts s + 1 \<and>
            timers s' = timers s @ [reconnectionDelay s * (reconnectAttempts s + 1)]) \<and>
         reconnectionDelay (new_SocketService w) = 1000 \<and>
         maxReconnectAttempts (new_SocketService w) = 5 \<and>
         (\<forall>fs. list_all is_failure fs \<and> reconnectAttempts s = 0 \<and>
               int (length fs) \<le> maxReconnectAttempts s \<longrightarrow>
            (\<exists>s'. exec run fs s = Inr s' \<and> reconnectAttempts s' = int (length fs) \<and>
               timers s' = timers s @
                 map (\<lambda>i. reconnectionDelay s * int i) [1..<Suc (length fs)]))"
proof -
  have a: "is_failure (Sock_disconnect reason :: 'p action)" using assms(4) by simp
  have b: "is_failure (Sock_connect_error err :: 'p action)" by simp
  have 1: "\<exists>s'. step run (Sock_disconnect reason) s = Inr s' \<and>
            reconnectAttempts s' = reconnectAttempts s + 1 \<and>
            timers s' = timers s @ [reconnectionDelay s * (reconnectAttempts s + 1)]"
    using failure_step [OF a assms(1,2,3), of run] by blast
  have 2: "\<exists>s'. step run (Sock_connect_error err) s = Inr s' \<and>
            reconnectAttempts s' = reconnectAttempts s + 1 \<and>
            timers s' = timers s @ [reconnectionDelay s * (reconnectAttempts s + 1)]"
    using failure_step [OF b assms(1,2,3), of run] by blast
  have 3: "reconnectionDelay (new_SocketService w) = 1000 \<and>
         maxReconnectAttempts (new_SocketService w) = 5"
    by (simp add: new_SocketService_def)
  have 4: "\<exists>s'. exec run fs s = Inr s' \<and> reconnectAttempts s' = int (length fs) \<and>
               timers s' = timers s @
                 map (\<lambda>i. reconnectionDelay s * int i) [1..<Suc (length fs)]"
    if "list_all is_failure fs" "reconnectAttempts s = 0"
       "int (length fs) \<le> maxReconnectAttempts s" for fs :: "'p action list"
    using failures_run [OF that(1) assms(1,2), of run] that(2,3) by auto
  from 1 2 3 4 show ?thesis by blast
qed

theorem unexpected_close_schedules_linear_backoff_witness:
  "socket (connect IoOk ''http://h'' (new_SocketService ())) \<noteq> None \<and>
   autoReconnect (connect IoOk ''http://h'' (new_SocketService ())) \<and>
   reconnectAttempts (connect IoOk ''http://h'' (new_SocketService ()))
     < maxReconnectAttempts (connect IoOk ''http://h'' (new_SocketService ())) \<and>
   ''transport close'' \<noteq> ''io client disconnect'' \<and>
   (\<exists>s'. step quiet (Sock_disconnect ''transport close'')
            (connect IoOk ''http://h'' (new_SocketService ())) = Inr s' \<and>
          reconnectAttempts s' = 1 \<and> timers s' = [1000]) \<and>
   list_all is_failure
     [Sock_connect_error ''refused'', Sock_disconnect ''transport close'',
      Sock_connect_error ''refused'', Sock_disconnect ''ping timeout'',
      Sock_connect_error ''refused'' :: unit action] \<and>
   (\<exists>s'. exec quiet
            [Sock_connect_error ''refused'', Sock_disconnect ''transport close'',
             Sock_connect_error ''refused'', Sock_disconnect ''ping timeout'',
             Sock_connect_error ''refused'']
            (connect IoOk ''http://h'' (new_SocketService ())) = Inr s' \<and>
          reconnectAttempts s' = 5 \<and> timers s' = [1000, 2000, 3000, 4000, 5000])"
proof -
  let ?S = "connect IoOk ''http://h'' (new_SocketService ()) :: unit SocketService"
  let ?F = "[Sock_connect_error ''refused'', Sock_disconnect ''transport close'',
      Sock_connect_error ''refused'', Sock_disconnect ''ping timeout'',
      Sock_connect_error ''refused'' :: unit action]"
  have h: "socket ?S \<noteq> None" "autoReconnect ?S"
    "reconnectAttempts ?S < maxReconnectAttempts ?S"
    and v: "reconnectAttempts ?S = 0" "maxReconnectAttempts ?S = 5"
      "reconnectionDelay ?S = 1000" "timers ?S = []"
    by (simp_all add: connect_def new_SocketService_def)
  have r: "''transport close'' \<noteq> ''io client disconnect''" by simp
  have f: "list_all is_failure ?F" by simp
  note T = unexpected_close_schedules_linear_backoff [OF h r, of quiet]
  from T [THEN conjunct1]
  have "\<exists>s'. step quiet (Sock_disconnect ''transport close'') ?S = Inr s' \<and>
            reconnectAttempts s' = reconnectAttempts ?S + 1 \<and>
            timers s' = timers ?S @ [reconnectionDelay ?S * (reconnectAttempts ?S + 1)]" .
  then have a: "\<exists>s'. step quiet (Sock_disconnect ''transport close'') ?S = Inr s' \<and>
          reconnectAttempts s' = 1 \<and> timers s' = [1000]"
    by (simp only: v) simp
  have len: "int (length ?F) \<le> maxReconnectAttempts ?S" by (simp add: v)
  from T [THEN conjunct2, THEN conjunct2, THEN conjunct2, THEN conjunct2, rule_format, of ?F]
    f v(1) len
  have "\<exists>s'. exec quiet ?F ?S = Inr s' \<and> reconnectAttempts s' = int (length ?F) \<and>
               timers s' = timers ?S @ map (\<lambda>i. reconnectionDelay ?S * int i) [1..<Suc (length ?F)]"
    by blast
  moreover have "map (\<lambda>i. reconnectionDelay ?S * int i) [1..<Suc (length ?F)]
      = [1000, 2000, 3000, 4000, 5000]"
    by (simp add: v upt_rec)
  ultimately have b: "\<exists>s'. exec quiet ?F ?S = Inr s' \<and>
          reconnectAttempts s' = 5 \<and> timers s' = [1000, 2000, 3000, 4000, 5000]"
    by (simp add: v)
  from h r a f b show ?thesis by blast
qed

lemma socket_connected_frame [simp]:
  "socket_connected (s\<lparr> console := c \<rparr>) = socket_connected s"
  "socket_connected (s\<lparr> world := w \<rparr>) = socket_connected s"
  by (simp_all add: socket_connected_def)

lemma exhausted_step:
  assumes "is_failure a" "maxReconnectAttempts s \<le> reconnectAttempts s"
  shows "\<exists>s'. step run a s = Inr s' \<and> timers s' = timers s \<and>
           reconnectAttempts s' = reconnectAttempts s \<and>
           maxReconnectAttempts s' = maxReconnectAttempts s \<and>
           (\<not> socket_connected s \<longrightarrow> \<not> socket_connected s')"
  using assms
  by (cases a)
     (auto simp add: on_disconnect_eq on_connect_error_eq attemptReconnect_def set_connected_def
        socket_connected_def Let_def split: option.splits)

lemma exhausted_run:
  assumes "list_all is_failure fs" "maxReconnectAttempts s \<le> reconnectAttempts s"
  shows "\<exists>s'. exec run fs s = Inr s' \<and> timers s' = timers s \<and>
           reconnectAttempts s' = reconnectAttempts s \<and>
           maxReconnectAttempts s' = maxReconnectAttempts s \<and>
           (\<not> socket_connected s \<longrightarrow> \<not> socket_connected s')"
  using assms
proof (induction fs arbitrary: s)
  case Nil
  then show ?case by simp
next
  case (Cons a fs)
  from Cons.prems have a: "is_failure a" and fs: "list_all is_failure fs" by simp_all
  from exhausted_step [OF a Cons.prems(2), of run]
  obtain s1 where s1: "step run a s = Inr s1" "timers s1 = timers s"
    "reconnectAttempts s1 = reconnectAttempts s"
    "maxReconnectAttempts s1 = maxReconnectAttempts s"
    "\<not> socket_connected s \<longrightarrow> \<not> socket_connected s1" by blast
  have le: "maxReconnectAttempts s1 \<le> reconnectAttempts s1" using s1 Cons.prems(2) by simp
  from Cons.IH [OF fs le]
  obtain s' where "exec run fs s1 = Inr s'" "timers s' = timers s1"
    "reconnectAttempts s' = reconnectAttempts s1"
    "maxReconnectAttempts s' = maxReconnectAttempts s1"
    "\<not> socket_connected s1 \<longrightarrow> \<not> socket_connected s'" by blast
  with s1 show ?case by simp
qed

text \<open>
  C2, as the code has it. With the counter at or above the maximum (and auto-reconnect
  enabled, a socket held): a close that is not the client's own, or a connection error,
  is dispatched to the handlers registered for that event, writes
  \<open>Maximum reconnection attempts reached\<close> to the console, and changes nothing else
  but the socket's \<open>connected\<close> property: no timer is added, the counter stays. Any run
  of such events adds no timer and leaves the counter, and a client that was not
  connected is not connected after it.
\<close>

theorem no_retry_at_ceiling:
  fixes run :: "('p, 'w) run" and s :: "'w SocketService"
  assumes "socket s \<noteq> None" "autoReconnect s"
    "maxReconnectAttempts s \<le> reconnectAttempts s" "reason \<noteq> ''io client disconnect''"
  shows "step run (Sock_disconnect reason) s =
           Inr (s\<lparr> socket := map_option (\<lambda>k. k\<lparr> connected := False \<rparr>) (socket s),
                   world := world_after run NoArgs (registered s E_disconnect) (world s),
                   console := console s @ [Log_disconnected reason] @
                     errors_logged run E_disconnect NoArgs (registered s E_disconnect) (world s) @
                     [Err_max_attempts] \<rparr>) \<and>
         step run (Sock_connect_error err) s =
           Inr (s\<lparr> world := world_after run (ErrorArg err) (registered s E_connect_error) (world s),
                   console := console s @ [Err_connection err] @
                     errors_logged run E_connect_error (ErrorArg err)
                       (registered s E_connect_error) (world s) @
                     [Err_max_attempts] \<rparr>) \<and>
         (\<forall>fs :: 'p action list. list_all is_failure fs \<longrightarrow>
            (\<exists>s'. exec run fs s = Inr s' \<and> timers s' = timers s \<and>
               reconnectAttempts s' = reconnectAttempts s \<and>
               (\<not> socket_connected s \<longrightarrow> \<not> socket_connected s')))"
proof -
  have 1: "step run (Sock_disconnect reason) s =
           Inr (s\<lparr> socket := map_option (\<lambda>k. k\<lparr> connected := False \<rparr>) (socket s),
                   world := world_after run NoArgs (registered s E_disconnect) (world s),
                   console := console s @ [Log_disconnected reason] @
                     errors_logged run E_disconnect NoArgs (registered s E_disconnect) (world s) @
                     [Err_max_attempts] \<rparr>)"
    using assms
    by (auto simp add: on_disconnect_eq attemptReconnect_def set_connected_def Let_def)
  have 2: "step run (Sock_connect_error err) s =
           Inr (s\<lparr> world := world_after run (ErrorArg err) (registered s E_connect_error) (world s),
                   console := console s @ [Err_connection err] @
                     errors_logged run E_connect_error (ErrorArg err)
                       (registered s E_connect_error) (world s) @
                     [Err_max_attempts] \<rparr>)"
    using assms
    by (auto simp add: on_connect_error_eq attemptReconnect_def Let_def)
  have 3: "\<exists>s'. exec run fs s = Inr s' \<and> timers s' = timers s \<and>
               reconnectAttempts s' = reconnectAttempts s \<and>
               (\<not> socket_connected s \<longrightarrow> \<not> socket_connected s')"
    if "list_all is_failure fs" for fs :: "'p action list"
    using exhausted_run [OF that assms(3), of run] by blast
  from 1 2 3 show ?thesis by blast
qed


theorem no_retry_at_ceiling_witness:
  "\<exists>s. exec quiet
          [Call_connect ''http://h'' IoOk, Call_configureReconnection (Some 1) None,
           Sock_connect_error ''refused'']
          (new_SocketService ()) = Inr s \<and>
       socket s \<noteq> None \<and> autoReconnect s \<and> maxReconnectAttempts s \<le> reconnectAttempts s \<and>
       ''transport close'' \<noteq> ''io client disconnect'' \<and>
       list_all is_failure
         [Sock_connect_error ''refused'', Sock_disconnect ''ping timeout'' :: unit action] \<and>
       (\<exists>s'. exec quiet [Sock_connect_error ''refused'', Sock_disconnect ''ping timeout''] s = Inr s'
           \<and> timers s' = [1000] \<and> reconnectAttempts s' = 1 \<and> \<not> socket_connected s')"
proof -
  obtain s where s: "exec quiet
          [Call_connect ''http://h'' IoOk, Call_configureReconnection (Some 1) None,
           Sock_connect_error ''refused'']
          (new_SocketService ()) = Inr s"
    using exec_total by blast
  then have p: "socket s \<noteq> None" "autoReconnect s" "maxReconnectAttempts s \<le> reconnectAttempts s"
    and q: "timers s = [1000]" "reconnectAttempts s = 1" "\<not> socket_connected s"
    by (auto simp add: svc_defs quiet_def Let_def)
  have r: "''transport close'' \<noteq> ''io client disconnect''" by simp
  have f: "list_all is_failure [Sock_connect_error ''refused'', Sock_disconnect ''ping timeout'' :: unit action]"
    by simp
  from no_retry_at_ceiling [OF p r, THEN conjunct2, THEN conjunct2, rule_format, OF f, of quiet]
  obtain s' where "exec quiet [Sock_connect_error ''refused'', Sock_disconnect ''ping timeout''] s = Inr s'"
    "timers s' = timers s" "reconnectAttempts s' = reconnectAttempts s"
    "\<not> socket_connected s \<longrightarrow> \<not> socket_connected s'" by blast
  with q have "\<exists>s'. exec quiet [Sock_connect_error ''refused'', Sock_disconnect ''ping timeout''] s = Inr s'
           \<and> timers s' = [1000] \<and> reconnectAttempts s' = 1 \<and> \<not> socket_connected s'" by auto
  with s p r f show ?thesis
    by blast
qed


text \<open>
  The specification says that once the counter has passed the maximum the client stays
  disconnected and no retry timer is ever scheduled again. With the maximum set to 1:
  the first connection error schedules the one retry, the second finds the counter at
  the maximum and schedules none. The socket then connects all the same (the client is
  connected, the listener resets the counter), and the next close schedules a timer.
\<close>

theorem retry_after_ceiling_counterexample:
  "map_sum id reconnectAttempts
     (exec quiet
        [Call_connect ''http://h'' IoOk, Call_configureReconnection (Some 1) (Some 60000),
         Sock_connect_error ''refused'', Sock_connect_error ''refused'']
        (new_SocketService ())) = Inr 1 \<and>
   map_sum id maxReconnectAttempts
     (exec quiet
        [Call_connect ''http://h'' IoOk, Call_configureReconnection (Some 1) (Some 60000),
         Sock_connect_error ''refused'', Sock_connect_error ''refused'']
        (new_SocketService ())) = Inr 1 \<and>
   map_sum id console
     (exec quiet
        [Call_connect ''http://h'' IoOk, Call_configureReconnection (Some 1) (Some 60000),
         Sock_connect_error ''refused'', Sock_connect_error ''refused'']
        (new_SocketService ()))
     = Inr [Err_connection ''refused'', Log_attempting 1 1,
            Err_connection ''refused'', Err_max_attempts] \<and>
   map_sum id timers
     (exec quiet
        [Call_connect ''http://h'' IoOk, Call_configureReconnection (Some 1) (Some 60000),
         Sock_connect_error ''refused'', Sock_connect_error ''refused'']
        (new_SocketService ())) = Inr [60000] \<and>
   map_sum id isConnected
     (exec quiet
        [Call_connect ''http://h'' IoOk, Call_configureReconnection (Some 1) (Some 60000),
         Sock_connect_error ''refused'', Sock_connect_error ''refused'', Sock_connect]
        (new_SocketService ())) = Inr True \<and>
   map_sum id timers
     (exec quiet
        [Call_connect ''http://h'' IoOk, Call_configureReconnection (Some 1) (Some 60000),
         Sock_connect_error ''refused'', Sock_connect_error ''refused'', Sock_connect,
         Sock_disconnect ''transport close'']
        (new_SocketService ())) = Inr [60000, 60000]"
  by (simp add: svc_defs isConnected_def quiet_def Let_def)


text \<open>
  How far the cleared flag reaches. \<open>disconnect()\<close> on a held socket clears
  \<open>autoReconnect\<close>; \<open>connect(address)\<close> after it does not set it, so a close of the new
  socket adds no timer; no method or listener sets a cleared flag other than
  \<open>setAutoReconnect(true)\<close>, after which a close that is not the client's own, with
  attempts remaining, schedules a retry.
\<close>

lemma auto_reconnect_flag_sticky:
  fixes run :: "('p, 'w) run" and s :: "'w SocketService"
  assumes "socket s \<noteq> None"
  shows "\<not> autoReconnect (disconnect s) \<and>
         \<not> autoReconnect (connect io u (disconnect s)) \<and>
         (\<exists>s'. step run (Sock_disconnect reason) (connect io u (disconnect s)) = Inr s' \<and>
            timers s' = timers s \<and> reconnectAttempts s' = 0) \<and>
         (\<forall>a t t'. \<not> autoReconnect t \<and> a \<noteq> Call_setAutoReconnect True \<and>
              step run a t = Inr t' \<longrightarrow> \<not> autoReconnect t') \<and>
         (0 < maxReconnectAttempts s \<and> reason \<noteq> ''io client disconnect'' \<longrightarrow>
            (\<exists>s'. step run (Sock_disconnect reason)
                     (setAutoReconnect True (connect IoOk u (disconnect s))) = Inr s' \<and>
               timers s' = timers s @ [reconnectionDelay s] \<and> reconnectAttempts s' = 1))"
proof -
  have 1: "\<not> autoReconnect (disconnect s)"
    using assms by (auto simp add: disconnect_def)
  have 2: "\<not> autoReconnect (connect io u (disconnect s))"
    using assms by (auto simp add: connect_def disconnect_def Let_def split: io_outcome.splits)
  have 3: "\<exists>s'. step run (Sock_disconnect reason) (connect io u (disconnect s)) = Inr s' \<and>
            timers s' = timers s \<and> reconnectAttempts s' = 0"
    using assms
    by (auto simp add: connect_def disconnect_def on_disconnect_eq set_connected_def Let_def
        split: io_outcome.splits)
  have 4: "\<not> autoReconnect t'"
    if "\<not> autoReconnect t" "a \<noteq> Call_setAutoReconnect True" "step run a t = Inr t'"
    for a :: "'p action" and t t' :: "'w SocketService"
    using that
    by (cases a)
       (auto simp add: svc_defs Let_def split: option.splits io_outcome.splits if_splits)
  have 5: "\<exists>s'. step run (Sock_disconnect reason)
                     (setAutoReconnect True (connect IoOk u (disconnect s))) = Inr s' \<and>
               timers s' = timers s @ [reconnectionDelay s] \<and> reconnectAttempts s' = 1"
    if "0 < maxReconnectAttempts s" "reason \<noteq> ''io client disconnect''"
    using that assms
    by (auto simp add: connect_def disconnect_def setAutoReconnect_def on_disconnect_eq
        set_connected_def attemptReconnect_def Let_def)
  from 1 2 3 4 5 show ?thesis by blast
qed

text \<open>
  C1. After an explicit \<open>disconnect()\<close> has disabled auto-reconnect, an explicit
  \<open>connect(address)\<close> should enable it again, so that a later unexpected close, with
  attempts remaining, starts the reconnection policy. The source's comments give the flag
  that scope (\<open>Prevent auto reconnect when explicitly disconnected\<close>,
  \<open>Handle reconnection if not explicitly closed\<close>), but \<open>connect\<close> never sets the flag.
  Connect, disconnect, connect again: the flag is still cleared when the new socket has
  connected, none of the five attempts is used, and the \<open>transport close\<close> of that
  socket schedules nothing. The retry itself runs into the same flag: the first
  connection error schedules a retry, the retry's \<open>connect(this.url)\<close> tears the failed
  socket down through \<open>disconnect()\<close>, and the next connection error schedules nothing.
\<close>

theorem connect_reenables_counterexample:
  "map_sum id autoReconnect
     (exec quiet [Call_connect ''http://h'' IoOk, Sock_connect, Call_disconnect]
        (new_SocketService ())) = Inr False \<and>
   map_sum id autoReconnect
     (exec quiet [Call_connect ''http://h'' IoOk, Sock_connect, Call_disconnect,
                  Call_connect ''http://h'' IoOk, Sock_connect]
        (new_SocketService ())) = Inr False \<and>
   map_sum id reconnectAttempts
     (exec quiet [Call_connect ''http://h'' IoOk, Sock_connect, Call_disconnect,
                  Call_connect ''http://h'' IoOk, Sock_connect]
        (new_SocketService ())) = Inr 0 \<and>
   map_sum id maxReconnectAttempts
     (exec quiet [Call_connect ''http://h'' IoOk, Sock_connect, Call_disconnect,
                  Call_connect ''http://h'' IoOk, Sock_connect]
        (new_SocketService ())) = Inr 5 \<and>
   map_sum id timers
     (exec quiet [Call_connect ''http://h'' IoOk, Sock_connect, Call_disconnect,
                  Call_connect ''http://h'' IoOk, Sock_connect,
                  Sock_disconnect ''transport close'']
        (new_SocketService ())) = Inr [] \<and>
   map_sum id reconnectAttempts
     (exec quiet [Call_connect ''http://h'' IoOk, Sock_connect, Call_disconnect,
                  Call_connect ''http://h'' IoOk, Sock_connect,
                  Sock_disconnect ''transport close'']
        (new_SocketService ())) = Inr 0 \<and>
   map_sum id timers
     (exec quiet [Call_connect ''http://h'' IoOk, Sock_connect_error ''refused'']
        (new_SocketService ())) = Inr [1000] \<and>
   map_sum id autoReconnect
     (exec quiet [Call_connect ''http://h'' IoOk, Sock_connect_error ''refused'',
                  Timer_fire 0 IoOk]
        (new_SocketService ())) = Inr False \<and>
   map_sum id timers
     (exec quiet [Call_connect ''http://h'' IoOk, Sock_connect_error ''refused'',
                  Timer_fire 0 IoOk, Sock_connect_error ''refused'']
        (new_SocketService ())) = Inr []"
  by (simp add: svc_defs quiet_def Let_def)

section \<open>Properties of the merge functions\<close>

subsection \<open>Single-connection upsert\<close>

lemma findIndex_ge: "- 1 \<le> findIndex p xs"
  by (induction xs) (simp_all add: Let_def)

lemma findIndex_neg: "findIndex p xs < 0 \<longleftrightarrow> (\<forall>x \<in> set xs. \<not> p x)"
  using findIndex_ge [of p]
  by (induction xs) (auto simp add: Let_def)

lemma findIndex_first:
  "0 \<le> findIndex p xs \<Longrightarrow>
     nat (findIndex p xs) < length xs \<and> p (xs ! nat (findIndex p xs)) \<and>
     (\<forall>j < nat (findIndex p xs). \<not> p (xs ! j))"
proof (induction xs)
  case Nil
  then show ?case by simp
next
  case (Cons x xs)
  show ?case
  proof (cases "p x")
    case True
    then show ?thesis by simp
  next
    case False
    with Cons.prems have ge: "0 \<le> findIndex p xs"
      by (simp add: Let_def split: if_splits)
    from Cons.IH [OF ge] have ih: "nat (findIndex p xs) < length xs"
      "p (xs ! nat (findIndex p xs))" "\<forall>j < nat (findIndex p xs). \<not> p (xs ! j)" by simp_all
    have eq: "nat (findIndex p (x # xs)) = Suc (nat (findIndex p xs))"
      using False ge by (simp add: Let_def nat_add_distrib)
    show ?thesis
      unfolding eq using ih False by (auto simp add: nth_Cons split: nat.splits)
  qed
qed

lemma findIndex_distinct:
  assumes "distinct (map f xs)" "i < length xs" "f (xs ! i) = k"
  shows "findIndex (\<lambda>c. f c = k) xs = int i"
proof -
  have "\<exists>x \<in> set xs. f x = k" using assms(2,3) nth_mem by blast
  then have ge: "0 \<le> findIndex (\<lambda>c. f c = k) xs"
    using findIndex_neg [of "\<lambda>c. f c = k" xs] by auto
  let ?j = "nat (findIndex (\<lambda>c. f c = k) xs)"
  from findIndex_first [OF ge] have j: "?j < length xs" "f (xs ! ?j) = k" by simp_all
  have "map f xs ! ?j = map f xs ! i" using j assms(2,3) by simp
  with nth_eq_iff_index_eq [OF assms(1), of ?j i] j(1) assms(2) have "?j = i"
    by simp
  with ge show ?thesis by simp
qed

lemma upsert_unseen:
  "c_id c \<notin> set (map c_id xs) \<Longrightarrow> handleConnectionUpdate c xs = xs @ [c]"
proof -
  assume "c_id c \<notin> set (map c_id xs)"
  then have "\<forall>x \<in> set xs. \<not> c_id x = c_id c" by (metis imageI set_map)
  then have "findIndex (\<lambda>x. c_id x = c_id c) xs < 0" by (simp only: findIndex_neg)
  then show ?thesis by (simp add: handleConnectionUpdate_def Let_def)
qed

lemma upsert_seen:
  "distinct (map c_id xs) \<Longrightarrow> i < length xs \<Longrightarrow> c_id (xs ! i) = c_id c \<Longrightarrow>
     handleConnectionUpdate c xs = xs[i := c]"
  using findIndex_distinct [of c_id xs i "c_id c"]
  by (simp add: handleConnectionUpdate_def Let_def)

lemma upsert_distinct:
  assumes "distinct (map c_id xs)"
  shows "distinct (map c_id (handleConnectionUpdate c xs))"
proof (cases "c_id c \<in> set (map c_id xs)")
  case False
  then show ?thesis using assms by (simp add: upsert_unseen)
next
  case True
  then obtain i where i: "i < length xs" "c_id (xs ! i) = c_id c"
    by (auto simp add: in_set_conv_nth)
  have "map c_id (xs[i := c]) = map c_id xs"
    using i by (simp add: map_update list_update_same_conv)
  then show ?thesis using assms i by (simp add: upsert_seen)
qed

lemma upserts_distinct:
  "distinct (map c_id xs) \<Longrightarrow>
     distinct (map c_id (foldl (\<lambda>acc u. handleConnectionUpdate u acc) xs us))"
  by (induction us arbitrary: xs) (simp_all add: upsert_distinct)

text \<open>
  C6. On a connections list without duplicate ids: an update whose id is not in the list
  is appended at the end; an update whose id is at position \<open>i\<close> replaces the record at
  position \<open>i\<close> and touches no other position; and after any sequence of updates the
  list still has no two records with the same id.
\<close>

theorem upsert_appends_or_replaces:
  assumes "distinct (map c_id xs)"
  shows "(c_id c \<notin> set (map c_id xs) \<longrightarrow> handleConnectionUpdate c xs = xs @ [c]) \<and>
         (\<forall>i < length xs. c_id (xs ! i) = c_id c \<longrightarrow> handleConnectionUpdate c xs = xs[i := c]) \<and>
         distinct (map c_id (foldl (\<lambda>acc u. handleConnectionUpdate u acc) xs us))"
  using assms upsert_unseen upsert_seen upserts_distinct by blast

theorem upsert_appends_or_replaces_witness:
  "distinct (map c_id [conn ''a'' ''x'', conn ''b'' ''y'']) \<and>
   c_id (conn ''c'' ''w'') \<notin> set (map c_id [conn ''a'' ''x'', conn ''b'' ''y'']) \<and>
   handleConnectionUpdate (conn ''c'' ''w'') [conn ''a'' ''x'', conn ''b'' ''y'']
     = [conn ''a'' ''x'', conn ''b'' ''y'', conn ''c'' ''w''] \<and>
   (0::nat) < length [conn ''a'' ''x'', conn ''b'' ''y''] \<and>
   c_id ([conn ''a'' ''x'', conn ''b'' ''y''] ! 0) = c_id (conn ''a'' ''z'') \<and>
   handleConnectionUpdate (conn ''a'' ''z'') [conn ''a'' ''x'', conn ''b'' ''y'']
     = [conn ''a'' ''z'', conn ''b'' ''y''] \<and>
   distinct (map c_id (foldl (\<lambda>acc u. handleConnectionUpdate u acc)
      [conn ''a'' ''x'', conn ''b'' ''y''] [conn ''c'' ''w'', conn ''a'' ''z'', conn ''c'' ''v'']))"
proof -
  have d: "distinct (map c_id [conn ''a'' ''x'', conn ''b'' ''y''])"
    by (simp add: conn_def)
  note T = upsert_appends_or_replaces [OF d]
  have 1: "c_id (conn ''c'' ''w'') \<notin> set (map c_id [conn ''a'' ''x'', conn ''b'' ''y''])"
    by (simp add: conn_def)
  have 2: "(0::nat) < length [conn ''a'' ''x'', conn ''b'' ''y'']"
    "c_id ([conn ''a'' ''x'', conn ''b'' ''y''] ! 0) = c_id (conn ''a'' ''z'')"
    by (simp_all add: conn_def)
  from T [of "conn ''c'' ''w''", THEN conjunct1, rule_format, OF 1]
  have a: "handleConnectionUpdate (conn ''c'' ''w'') [conn ''a'' ''x'', conn ''b'' ''y'']
     = [conn ''a'' ''x'', conn ''b'' ''y'', conn ''c'' ''w'']" by simp
  from T [of "conn ''a'' ''z''", THEN conjunct2, THEN conjunct1, rule_format, OF 2]
  have b: "handleConnectionUpdate (conn ''a'' ''z'') [conn ''a'' ''x'', conn ''b'' ''y'']
     = [conn ''a'' ''z'', conn ''b'' ''y'']" by simp
  from T [THEN conjunct2, THEN conjunct2]
  have c: "distinct (map c_id (foldl (\<lambda>acc u. handleConnectionUpdate u acc)
      [conn ''a'' ''x'', conn ''b'' ''y''] [conn ''c'' ''w'', conn ''a'' ''z'', conn ''c'' ''v'']))" .
  from d 1 2 a b c show ?thesis by blast
qed


subsection \<open>Log push\<close>

lemma slice_from_0: "0 \<le> e \<Longrightarrow> slice xs 0 e = take (nat e) xs"
  by (simp add: slice_def rel_index_def Let_def min_def)

lemma Logs_push_eq:
  "1 \<le> f_limit f \<Longrightarrow> matches_filters f log \<Longrightarrow>
     Logs_handleLogUpdate f log prev = take (nat (f_limit f)) (log # prev)"
  by (cases "nat (f_limit f)") (simp_all add: Logs_handleLogUpdate_def slice_from_0 nat_diff_distrib)

lemma Logs_pushes_append:
  "Logs_pushes f prev (ls @ [l]) = Logs_handleLogUpdate f l (Logs_pushes f prev ls)"
  by (induction ls arbitrary: prev) simp_all

lemma Logs_pushes_matching:
  assumes "1 \<le> f_limit f" "\<forall>l \<in> set ls. matches_filters f l"
  shows "Logs_pushes f [] ls = take (nat (f_limit f)) (rev ls)"
  using assms(2)
proof (induction ls rule: rev_induct)
  case Nil
  show ?case by simp
next
  case (snoc l ls)
  then have ih: "Logs_pushes f [] ls = take (nat (f_limit f)) (rev ls)"
    and m: "matches_filters f l" by simp_all
  obtain k where k: "nat (f_limit f) = Suc k" using assms(1) by (cases "nat (f_limit f)") auto
  show ?case
    by (simp add: Logs_pushes_append ih Logs_push_eq [OF assms(1) m] k min_def)
qed

lemma Logs_pushes_unmatched:
  "\<forall>l \<in> set ls. \<not> matches_filters f l \<Longrightarrow> Logs_pushes f prev ls = prev"
  by (induction ls arbitrary: prev) (simp_all add: Logs_handleLogUpdate_def)

lemma default_matches: "matches_filters defaultFilters log"
  by (cases "l_level log") (simp_all add: matches_filters_def defaultFilters_def truthy_def)

text \<open>
  C7, as the code has it. The Logs page stores a push only if it passes the current
  filters. A push that passes, with limit \<open>L \<ge> 1\<close>, leaves the new entry followed by the
  first \<open>L - 1\<close> stored ones: at most \<open>L\<close> entries, whatever the length before. A push
  that does not pass leaves the stored sequence as it is. The Dashboard keeps at most 5
  and has no guard. From the empty sequence, with limit 50, 60 pushes that all pass the
  filters leave exactly 50 entries: the last 50 pushed, newest first. The default
  filters have limit 50 and let every entry pass.
\<close>

theorem log_push_bounded:
  "(1 \<le> f_limit f \<and> matches_filters f log \<longrightarrow>
      Logs_handleLogUpdate f log prev = take (nat (f_limit f)) (log # prev) \<and>
      int (length (Logs_handleLogUpdate f log prev)) \<le> f_limit f) \<and>
   (\<not> matches_filters f log \<longrightarrow> Logs_handleLogUpdate f log prev = prev) \<and>
   Dashboard_handleLogUpdate log prev = take 5 (log # prev) \<and>
   length (Dashboard_handleLogUpdate log prev) \<le> 5 \<and>
   (f_limit f = 50 \<and> length ls = 60 \<and> (\<forall>l \<in> set ls. matches_filters f l) \<longrightarrow>
      Logs_pushes f [] ls = rev (drop 10 ls) \<and> length (Logs_pushes f [] ls) = 50) \<and>
   matches_filters defaultFilters log \<and> f_limit defaultFilters = 50"
proof -
  have 1: "Logs_handleLogUpdate f log prev = take (nat (f_limit f)) (log # prev) \<and>
      int (length (Logs_handleLogUpdate f log prev)) \<le> f_limit f"
    if "1 \<le> f_limit f" "matches_filters f log"
    using that by (simp add: Logs_push_eq)
  have 2: "Logs_handleLogUpdate f log prev = prev" if "\<not> matches_filters f log"
    using that by (simp add: Logs_handleLogUpdate_def)
  have 3: "Dashboard_handleLogUpdate log prev = take 5 (log # prev)"
    by (simp add: Dashboard_handleLogUpdate_def slice_from_0)
  have 4: "Logs_pushes f [] ls = rev (drop 10 ls) \<and> length (Logs_pushes f [] ls) = 50"
    if "f_limit f = 50" "length ls = 60" "\<forall>l \<in> set ls. matches_filters f l"
  proof -
    have "Logs_pushes f [] ls = take 50 (rev ls)"
      using Logs_pushes_matching [of f ls] that(1,3) by simp
    then show ?thesis using that(2) by (simp add: take_rev)
  qed
  have 5: "f_limit defaultFilters = 50" by (simp add: defaultFilters_def)
  from 1 2 3 4 5 default_matches show ?thesis by auto
qed

theorem log_push_bounded_witness:
  "1 \<le> f_limit defaultFilters \<and> matches_filters defaultFilters (entry 2 L_debug) \<and>
   Logs_handleLogUpdate defaultFilters (entry 2 L_debug) [entry 1 L_info, entry 0 L_error]
     = [entry 2 L_debug, entry 1 L_info, entry 0 L_error] \<and>
   \<not> matches_filters (defaultFilters\<lparr> f_levels := [''error''] \<rparr>) (entry 2 L_debug) \<and>
   Logs_handleLogUpdate (defaultFilters\<lparr> f_levels := [''error''] \<rparr>) (entry 2 L_debug)
       [entry 1 L_error, entry 0 L_error]
     = [entry 1 L_error, entry 0 L_error] \<and>
   f_limit defaultFilters = 50 \<and> length (entries L_info 60) = 60 \<and>
   list_all (matches_filters defaultFilters) (entries L_info 60) \<and>
   Logs_pushes defaultFilters [] (entries L_info 60) = rev (map (\<lambda>i. entry i L_info) [10..<60]) \<and>
   length (Logs_pushes defaultFilters [] (entries L_info 60)) = 50"
proof -
  note T = log_push_bounded [of defaultFilters "entry 2 L_debug" "[entry 1 L_info, entry 0 L_error]"
      "entries L_info 60"]
  note U = log_push_bounded [of "defaultFilters\<lparr> f_levels := [''error''] \<rparr>" "entry 2 L_debug"
      "[entry 1 L_error, entry 0 L_error]"]
  have 1: "1 \<le> f_limit defaultFilters" and l: "f_limit defaultFilters = 50"
    by (simp_all add: defaultFilters_def)
  have 2: "matches_filters defaultFilters (entry 2 L_debug)"
    by (simp add: matches_filters_def defaultFilters_def entry_def truthy_def)
  have 3: "length (entries L_info 60) = 60" by (simp add: entries_def)
  have 4: "\<forall>l \<in> set (entries L_info 60). matches_filters defaultFilters l"
    by (simp add: default_matches)
  have n: "\<not> matches_filters (defaultFilters\<lparr> f_levels := [''error''] \<rparr>) (entry 2 L_debug)"
    by (simp add: matches_filters_def defaultFilters_def entry_def)
  from T 1 2 have a: "Logs_handleLogUpdate defaultFilters (entry 2 L_debug) [entry 1 L_info, entry 0 L_error]
     = [entry 2 L_debug, entry 1 L_info, entry 0 L_error]"
    by (simp add: defaultFilters_def)
  from U n have u: "Logs_handleLogUpdate (defaultFilters\<lparr> f_levels := [''error''] \<rparr>) (entry 2 L_debug)
       [entry 1 L_error, entry 0 L_error] = [entry 1 L_error, entry 0 L_error]"
    by blast
  from T l 3 4 have b: "Logs_pushes defaultFilters [] (entries L_info 60) = rev (drop 10 (entries L_info 60))"
    and c: "length (Logs_pushes defaultFilters [] (entries L_info 60)) = 50"
    by blast+
  have "drop 10 (entries L_info 60) = map (\<lambda>i. entry i L_info) [10..<60]"
    by (simp add: entries_def drop_map)
  with b have b': "Logs_pushes defaultFilters [] (entries L_info 60)
     = rev (map (\<lambda>i. entry i L_info) [10..<60])" by simp
  from 4 have 5: "list_all (matches_filters defaultFilters) (entries L_info 60)"
    by (simp only: list_all_iff)
  from 1 2 a n u l 3 5 b' c show ?thesis by blast
qed

text \<open>
  The specification bounds the length after every push by the limit alone and has
  every run of 60 pushes under limit 50 end with 50 entries. With the levels narrowed to
  \<open>error\<close> and limit 50, 60 \<open>info\<close> pushes from the empty sequence leave it empty; and
  with limit 2, an \<open>info\<close> push on three stored entries leaves three.
\<close>

theorem log_push_unfiltered_counterexample:
  "1 \<le> f_limit (defaultFilters\<lparr> f_levels := [''error''] \<rparr>) \<and>
   f_limit (defaultFilters\<lparr> f_levels := [''error''] \<rparr>) = 50 \<and>
   length (entries L_info 60) = 60 \<and>
   Logs_pushes (defaultFilters\<lparr> f_levels := [''error''] \<rparr>) [] (entries L_info 60) = [] \<and>
   length (Logs_handleLogUpdate (defaultFilters\<lparr> f_levels := [''error''], f_limit := 2 \<rparr>)
             (entry 3 L_info) [entry 2 L_error, entry 1 L_error, entry 0 L_error]) = 3"
proof -
  have "\<forall>l \<in> set (entries L_info 60).
          \<not> matches_filters (defaultFilters\<lparr> f_levels := [''error''] \<rparr>) l"
    by (auto simp add: entries_def matches_filters_def defaultFilters_def entry_def)
  then have "Logs_pushes (defaultFilters\<lparr> f_levels := [''error''] \<rparr>) [] (entries L_info 60) = []"
    by (rule Logs_pushes_unmatched)
  moreover have "length (Logs_handleLogUpdate (defaultFilters\<lparr> f_levels := [''error''], f_limit := 2 \<rparr>)
             (entry 3 L_info) [entry 2 L_error, entry 1 L_error, entry 0 L_error]) = 3"
    by (simp add: Logs_handleLogUpdate_def matches_filters_def defaultFilters_def entry_def)
  ultimately show ?thesis by (simp add: defaultFilters_def entries_def)
qed

subsection \<open>Filters\<close>

lemma set_filters_keep_logs:
  "logs (foldl logs_step st (map SetFilters fs)) = logs st"
  by (induction fs arbitrary: st) simp_all

text \<open>
  C5, as the code has it. The search-text projections \<open>filteredLogs\<close> and
  \<open>filteredConnections\<close> return a subsequence of the stored sequence, in its order, and
  the whole of it when the search text is empty; they are functions of the state and
  change nothing. \<open>setFilters\<close>, once or many times over, leaves the stored logs as they
  are. The filters also guard what is stored: a pushed entry that does not pass the
  current filters is not stored, and the answer to a fetch replaces the stored sequence.
\<close>

theorem filter_projections_pure:
  "subseq (filteredLogs st) (logs st) \<and>
   (f_searchText (filters st) = [] \<longrightarrow> filteredLogs st = logs st) \<and>
   subseq (filteredConnections txt cs) cs \<and>
   (txt = [] \<longrightarrow> filteredConnections txt cs = cs) \<and>
   logs (logs_step st (SetFilters f)) = logs st \<and>
   logs (foldl logs_step st (map SetFilters fs)) = logs st \<and>
   (\<not> matches_filters (filters st) log \<longrightarrow> logs (logs_step st (LogPush log)) = logs st) \<and>
   logs (logs_step st (FetchDone d)) = d"
  by (simp add: filteredLogs_def filteredConnections_def Let_def set_filters_keep_logs
      Logs_handleLogUpdate_def)


theorem filter_projections_pure_witness:
  "f_searchText (filters \<lparr> logs = [entry 1 L_warn, entry 0 L_info],
                           filters = defaultFilters, requested = [] \<rparr>) = [] \<and>
   filteredLogs \<lparr> logs = [entry 1 L_warn, entry 0 L_info], filters = defaultFilters, requested = [] \<rparr>
     = [entry 1 L_warn, entry 0 L_info] \<and>
   filteredConnections [] [conn ''a'' ''x''] = [conn ''a'' ''x''] \<and>
   \<not> matches_filters (defaultFilters\<lparr> f_levels := [''error''] \<rparr>) (entry 2 L_debug) \<and>
   logs (logs_step \<lparr> logs = [entry 1 L_warn], filters = defaultFilters\<lparr> f_levels := [''error''] \<rparr>,
                     requested = [] \<rparr> (LogPush (entry 2 L_debug))) = [entry 1 L_warn]"
  using filter_projections_pure
      [of "\<lparr> logs = [entry 1 L_warn, entry 0 L_info], filters = defaultFilters, requested = [] \<rparr>"
          "[]" "[conn ''a'' ''x'']"]
    filter_projections_pure
      [of "\<lparr> logs = [entry 1 L_warn], filters = defaultFilters\<lparr> f_levels := [''error''] \<rparr>,
              requested = [] \<rparr>" _ _ _ _ "entry 2 L_debug"]
  by (simp add: defaultFilters_def matches_filters_def entry_def)

text \<open>
  The specification says that every entry received stays present through any filter changes.
  An \<open>info\<close> entry pushed under the default filters is stored. Pushed while the levels
  are narrowed to \<open>error\<close> it is not stored at all, and widening the filter again does
  not bring it back: the severity filter is applied when the entry arrives, not as a
  projection of what is stored. And a stored entry is gone once the fetch that the
  filter change issued (levels \<open>error\<close>, limit 50) is answered with no entries.
\<close>

theorem filter_change_loses_entries_counterexample:
  "logs (foldl logs_step \<lparr> logs = [], filters = defaultFilters, requested = [] \<rparr>
           [LogPush (entry 0 L_info)]) = [entry 0 L_info] \<and>
   logs (foldl logs_step \<lparr> logs = [], filters = defaultFilters, requested = [] \<rparr>
           [SetFilters (defaultFilters\<lparr> f_levels := [''error''] \<rparr>), LogPush (entry 0 L_info),
            SetFilters defaultFilters]) = [] \<and>
   filteredLogs (foldl logs_step \<lparr> logs = [], filters = defaultFilters, requested = [] \<rparr>
           [SetFilters (defaultFilters\<lparr> f_levels := [''error''] \<rparr>), LogPush (entry 0 L_info),
            SetFilters defaultFilters]) = [] \<and>
   requested (foldl logs_step \<lparr> logs = [entry 0 L_info], filters = defaultFilters, requested = [] \<rparr>
           [SetFilters (defaultFilters\<lparr> f_levels := [''error''] \<rparr>)])
     = [\<lparr> o_levels = Some [''error''], o_service = None, o_limit = Some 50 \<rparr>] \<and>
   logs (foldl logs_step \<lparr> logs = [entry 0 L_info], filters = defaultFilters, requested = [] \<rparr>
           [SetFilters (defaultFilters\<lparr> f_levels := [''error''] \<rparr>), FetchDone []]) = []"
  by (simp add: filteredLogs_def Logs_handleLogUpdate_def matches_filters_def defaultFilters_def
      entry_def truthy_def query_of_def slice_def rel_index_def)


end
